theory Spec2Isabelle
  imports Main "HOL-Library.AList"
begin

section \<open>Python strings\<close>

text \<open>
  A Python \<open>str\<close> is a sequence of Unicode code points; it is modelled as the list of
  their numbers, so that the tests the code makes on it (\<open>in\<close>, \<open>splitlines\<close>,
  \<open>strip\<close>) see what Python sees. \<open>str\<close> turns an ASCII literal into such a list.
\<close>

type_synonym ustr = "nat list"

definition str :: "string \<Rightarrow> ustr" where
  "str s = map of_char s"

text \<open>\<open>sub in s\<close> on strings: \<open>sub\<close> occurs in \<open>s\<close> as a contiguous piece.\<close>

fun startswith :: "ustr \<Rightarrow> ustr \<Rightarrow> bool" where
  "startswith s [] = True"
| "startswith [] (c # sub) = False"
| "startswith (d # s) (c # sub) = (d = c \<and> startswith s sub)"

fun contains :: "ustr \<Rightarrow> ustr \<Rightarrow> bool" where
  "contains sub [] = (sub = [])"
| "contains sub (c # s) = (startswith (c # s) sub \<or> contains sub s)"

text \<open>\<open>str.replace(",", "\n")\<close>, the only replacement the code makes: one code point
  for another.\<close>

definition replace_comma :: "ustr \<Rightarrow> ustr" where
  "replace_comma text = map (\<lambda>c. if c = 44 then 10 else c) text"

text \<open>
  \<open>str.splitlines()\<close>: the line boundaries are \<open>\n\<close>, \<open>\r\<close>, \<open>\r\n\<close>, \<open>\v\<close>, \<open>\f\<close>,
  \<open>\x1c\<close>, \<open>\x1d\<close>, \<open>\x1e\<close>, \<open>\x85\<close>, U+2028 and U+2029; the boundaries are not kept,
  and a text that ends with one has no empty last line. \<open>cur\<close> holds the line being read,
  reversed.
\<close>

definition is_linebreak :: "nat \<Rightarrow> bool" where
  "is_linebreak c = (c \<in> {10, 11, 12, 13, 28, 29, 30, 133, 8232, 8233})"

fun splitlines_from :: "ustr \<Rightarrow> ustr \<Rightarrow> ustr list" where
  "splitlines_from cur [] = (if cur = [] then [] else [rev cur])"
| "splitlines_from cur (c # cs) =
     (if c = 13 then
        (case cs of
           d # ds \<Rightarrow> if d = 10 then rev cur # splitlines_from [] ds
                     else rev cur # splitlines_from [] cs
         | [] \<Rightarrow> rev cur # splitlines_from [] cs)
      else if is_linebreak c then rev cur # splitlines_from [] cs
      else splitlines_from (c # cur) cs)"

definition splitlines :: "ustr \<Rightarrow> ustr list" where
  "splitlines text = splitlines_from [] text"

text \<open>\<open>str.strip()\<close> removes the code points for which \<open>str.isspace\<close> holds from both
  ends.\<close>

definition isspace :: "nat \<Rightarrow> bool" where
  "isspace c = (c \<in> {9, 10, 11, 12, 13, 28, 29, 30, 31, 32, 133, 160, 5760,
                     8192, 8193, 8194, 8195, 8196, 8197, 8198, 8199, 8200, 8201, 8202,
                     8232, 8233, 8239, 8287, 12288})"

definition strip :: "ustr \<Rightarrow> ustr" where
  "strip s = rev (dropWhile isspace (rev (dropWhile isspace s)))"

text \<open>
  The specification's reading of the same step, used to state what \<open>parse_emails\<close>
  returns: \<open>split_on P text\<close> cuts the text at every code point for which \<open>P\<close> holds and
  keeps every piece, empty ones too; the separators of the specification are the comma
  and the line boundaries.
\<close>

definition is_separator :: "nat \<Rightarrow> bool" where
  "is_separator c = (c = 44 \<or> is_linebreak c)"

fun split_on :: "(nat \<Rightarrow> bool) \<Rightarrow> ustr \<Rightarrow> ustr list" where
  "split_on P [] = [[]]"
| "split_on P (c # cs) =
     (if P c then [] # split_on P cs
      else (case split_on P cs of p # ps \<Rightarrow> (c # p) # ps | [] \<Rightarrow> [[c]]))"

section \<open>Front End helpers (bot.py)\<close>

text \<open>
  \<open>parse_emails\<close>: commas become newlines, the text is cut into lines, the lines holding
  both \<open>@\<close> and \<open>.\<close> are stripped and collected in a set, and the set is returned as a
  list. Python leaves the order of that list open; the model lists the entries in the
  order \<open>remdups\<close> gives, and no statement below depends on the order.
\<close>

definition parse_emails :: "ustr \<Rightarrow> ustr list" where
  "parse_emails text =
     remdups (map strip
       (filter (\<lambda>line. contains (str ''@'') line \<and> contains (str ''.'') line)
          (splitlines (replace_comma text))))"


section \<open>JSON values and exceptions\<close>

text \<open>
  What \<open>json()\<close> returns: \<open>None\<close>, a bool, a number, a \<open>str\<close>, a list or a dict. A dict
  is the list of its items in insertion order, its keys distinct; \<open>map_of\<close> looks a key
  up. The code never reads the value of a number, only that it is one.
\<close>

datatype json =
    JNull
  | JBool bool
  | JNum int
  | JStr ustr
  | JArr "json list"
  | JObj "(ustr \<times> json) list"

datatype exn =
    JSONDecodeError
  | AttributeError
  | TypeError
  | HTTPError nat
  | RequestException ustr
  | TelegramError
  | UnicodeEncodeError

section \<open>Configuration\<close>

text \<open>\<open>os.getenv(name) or dflt\<close>: the default stands in for a variable that is unset and
  for one that is set to the empty string.\<close>

definition getenv_or :: "(ustr \<rightharpoonup> ustr) \<Rightarrow> ustr \<Rightarrow> ustr \<Rightarrow> ustr" where
  "getenv_or env name dflt =
     (case env name of None \<Rightarrow> dflt | Some v \<Rightarrow> if v = [] then dflt else v)"

definition TELEGRAM_BOT_TOKEN :: "(ustr \<rightharpoonup> ustr) \<Rightarrow> ustr" where
  "TELEGRAM_BOT_TOKEN env =
     getenv_or env (str ''TELEGRAM_BOT_TOKEN'') (str ''your_telegram_bot_token'')"

definition API_KEY :: "(ustr \<rightharpoonup> ustr) \<Rightarrow> ustr" where
  "API_KEY env = getenv_or env (str ''API_KEY'') (str ''my_secure_api_key_123'')"

section \<open>Classification Service\<close>

text \<open>
  A request as a handler sees it: the headers, their names in lower case as the server
  hands them over, and the body, \<open>None\<close> when it is not JSON. \<open>key\<close> below is the
  module's \<open>API_KEY\<close>.
\<close>

record request =
  headers :: "(ustr \<times> ustr) list"
  body :: "json option"

text \<open>
  How a request ends: the dict a handler returns (status 200), a \<open>JSONResponse\<close> with
  its content and status, an \<open>HTTPException\<close> with its status and detail, the framework's
  answer to a body that does not fit the declared model (422), or its answer to an
  exception that leaves the handler (500).
\<close>

datatype response =
    Results "(ustr \<times> ustr) list"
  | JSONResponse json nat
  | HTTPException nat ustr
  | RequestValidationError
  | Unhandled exn

fun status_code :: "response \<Rightarrow> nat" where
  "status_code (Results r) = 200"
| "status_code (JSONResponse content code) = code"
| "status_code (HTTPException code detail) = code"
| "status_code RequestValidationError = 422"
| "status_code (Unhandled e) = 500"

fun classification :: "response \<Rightarrow> (ustr \<times> ustr) list option" where
  "classification (Results r) = Some r"
| "classification (JSONResponse content code) = None"
| "classification (HTTPException code detail) = None"
| "classification RequestValidationError = None"
| "classification (Unhandled e) = None"

text \<open>
  The dict a handler returns is written out as JSON and encoded in UTF-8 by the framework
  before it is sent. A \<open>str\<close> that holds a lone surrogate (U+D800 to U+DFFF, which a JSON
  body can carry as an escape) cannot be encoded: the encoding raises, and the client
  gets the answer to an unhandled exception and no mapping. \<open>served\<close> is what reaches the
  client.
\<close>

definition encodable :: "ustr \<Rightarrow> bool" where
  "encodable s = list_all (\<lambda>c. c < 0xD800 \<or> 0xDFFF < c) s"

fun served :: "response \<Rightarrow> response" where
  "served (Results r) =
     (if list_all (\<lambda>kv. encodable (fst kv) \<and> encodable (snd kv)) r then Results r
      else Unhandled UnicodeEncodeError)"
| "served (JSONResponse content code) = JSONResponse content code"
| "served (HTTPException code detail) = HTTPException code detail"
| "served RequestValidationError = RequestValidationError"
| "served (Unhandled e) = Unhandled e"

subsection \<open>bot.py: the substring strategy\<close>

text \<open>\<open>data.get("emails", [])\<close>: only a dict has \<open>get\<close>.\<close>

fun get_emails :: "json \<Rightarrow> exn + json" where
  "get_emails (JObj kvs) =
     (case map_of kvs (str ''emails'') of None \<Rightarrow> Inr (JArr []) | Some v \<Rightarrow> Inr v)"
| "get_emails j = Inl AttributeError"

text \<open>\<open>for email in emails\<close>: a list gives its elements, a \<open>str\<close> its characters, a dict
  its keys; nothing else can be iterated.\<close>

fun iter :: "json \<Rightarrow> exn + json list" where
  "iter (JArr xs) = Inr xs"
| "iter (JStr s) = Inr (map (\<lambda>c. JStr [c]) s)"
| "iter (JObj kvs) = Inr (map (\<lambda>kv. JStr (fst kv)) kvs)"
| "iter j = Inl TypeError"

text \<open>The branches of the loop body (bot.py, lines 45 to 50).\<close>

definition substring_label :: "ustr \<Rightarrow> ustr" where
  "substring_label email =
     (if contains (str ''flag'') email then str ''yes''
      else if contains (str ''active'') email then str ''no''
      else str ''error'')"

text \<open>
  The loop. \<open>results[email] = v\<close> keeps the place of a key that is there already and puts
  a new key last, as \<open>AList.update\<close> does. An element that is no \<open>str\<close> raises
  \<open>TypeError\<close>: \<open>in\<close> has no meaning on \<open>None\<close>, a bool or a number, and a list or a dict
  cannot be a key.
\<close>

fun bot_loop :: "(ustr \<times> ustr) list \<Rightarrow> json list \<Rightarrow> exn + (ustr \<times> ustr) list" where
  "bot_loop results [] = Inr results"
| "bot_loop results (JStr email # rest) =
     bot_loop (AList.update email (substring_label email) results) rest"
| "bot_loop results (j # rest) = Inl TypeError"

definition check_emails_bot :: "ustr \<Rightarrow> request \<Rightarrow> response" where
  "check_emails_bot key req =
     (if map_of (headers req) (str ''x-api-key'') \<noteq> Some key
      then JSONResponse (JObj [(str ''error'', JStr (str ''Unauthorized''))]) 401
      else case body req of
        None \<Rightarrow> Unhandled JSONDecodeError
      | Some data \<Rightarrow>
          (case get_emails data of
             Inl e \<Rightarrow> Unhandled e
           | Inr emails \<Rightarrow>
               (case iter emails of
                  Inl e \<Rightarrow> Unhandled e
                | Inr items \<Rightarrow>
                    (case bot_loop [] items of
                       Inl e \<Rightarrow> Unhandled e
                     | Inr results \<Rightarrow> Results results))))"

subsection \<open>main.py: the fixed dictionary\<close>

record EmailCheckRequest =
  emails :: "ustr list"

definition SIMULATED_DATABASE :: "(ustr \<times> ustr) list" where
  "SIMULATED_DATABASE =
     [(str ''active@example.com'', str ''yes''),
      (str ''flagged@example.com'', str ''no''),
      (str ''blocked@example.com'', str ''captcha''),
      (str ''error@example.com'', str ''error'')]"

text \<open>
  \<open>lower\<close> stands for \<open>str.lower\<close>, whose table covers all of Unicode; the handler is
  modelled for any such function. \<open>ascii_lower\<close> is what it does on ASCII text.
\<close>

definition ascii_lower :: "ustr \<Rightarrow> ustr" where
  "ascii_lower s = map (\<lambda>c. if 65 \<le> c \<and> c \<le> 90 then c + 32 else c) s"

fun main_loop :: "(ustr \<Rightarrow> ustr) \<Rightarrow> (ustr \<times> ustr) list \<Rightarrow> ustr list \<Rightarrow> (ustr \<times> ustr) list" where
  "main_loop lower results [] = results"
| "main_loop lower results (email # rest) =
     main_loop lower
       (AList.update email
          (case map_of SIMULATED_DATABASE (lower email) of None \<Rightarrow> str ''no'' | Some v \<Rightarrow> v)
          results)
       rest"

definition check_emails_main ::
    "(ustr \<Rightarrow> ustr) \<Rightarrow> ustr \<Rightarrow> request \<Rightarrow> EmailCheckRequest \<Rightarrow> response" where
  "check_emails_main lower key req payload =
     (if map_of (headers req) (str ''x-api-key'') \<noteq> Some key
      then HTTPException 403 (str ''Invalid API key'')
      else Results (main_loop lower [] (emails payload)))"

text \<open>
  The handler declares \<open>payload: EmailCheckRequest\<close>, so the framework reads the body
  into that model before it calls the handler, and answers 422 itself when the body does
  not fit: no JSON, no object, no \<open>emails\<close> field, or a field that is no list of strings.
\<close>

fun as_str :: "json \<Rightarrow> ustr option" where
  "as_str (JStr s) = Some s"
| "as_str j = None"

fun all_str :: "json list \<Rightarrow> ustr list option" where
  "all_str [] = Some []"
| "all_str (j # js) =
     (case as_str j of
        None \<Rightarrow> None
      | Some s \<Rightarrow> (case all_str js of None \<Rightarrow> None | Some ss \<Rightarrow> Some (s # ss)))"

fun validate :: "json \<Rightarrow> EmailCheckRequest option" where
  "validate (JObj kvs) =
     (case map_of kvs (str ''emails'') of
        Some (JArr xs) \<Rightarrow>
          (case all_str xs of None \<Rightarrow> None | Some es \<Rightarrow> Some \<lparr>emails = es\<rparr>)
      | _ \<Rightarrow> None)"
| "validate j = None"

definition post_check_emails_main :: "(ustr \<Rightarrow> ustr) \<Rightarrow> ustr \<Rightarrow> request \<Rightarrow> response" where
  "post_check_emails_main lower key req =
     (case body req of
        None \<Rightarrow> RequestValidationError
      | Some j \<Rightarrow>
          (case validate j of
             None \<Rightarrow> RequestValidationError
           | Some payload \<Rightarrow> check_emails_main lower key req payload))"


section \<open>Front End (bot.py)\<close>

subsection \<open>Rendering\<close>

text \<open>
  The icons are single code points beyond ASCII and are written by number: U+26A0 with
  U+FE0F (warning sign), U+2705 (check mark), U+1F6E1 (shield), U+2753 (question mark),
  and U+2013 for the dash between label and email.
\<close>

definition status_map :: "(ustr \<times> ustr) list" where
  "status_map =
     [(str ''yes'', [0x26A0, 0xFE0F] @ str '' Flagged''),
      (str ''no'', 0x2705 # str '' Active''),
      (str ''captcha'', 0x1F6E1 # str '' CAPTCHA blocked''),
      (str ''error'', 0x2753 # str '' Unknown or Error'')]"

text \<open>\<open>status_map.get(status, ...)\<close> with the default of line 168. A status that is a
  list or a dict cannot be hashed; any other value that is no key gets the default.\<close>

fun status_map_get :: "json \<Rightarrow> exn + ustr" where
  "status_map_get (JStr status) =
     (case map_of status_map status of
        None \<Rightarrow> Inr (0x2753 # str '' Unknown'')
      | Some label \<Rightarrow> Inr label)"
| "status_map_get (JArr xs) = Inl TypeError"
| "status_map_get (JObj kvs) = Inl TypeError"
| "status_map_get j = Inr (0x2753 # str '' Unknown'')"

fun join :: "ustr \<Rightarrow> ustr list \<Rightarrow> ustr" where
  "join sep [] = []"
| "join sep [x] = x"
| "join sep (x # y # ys) = x @ sep @ join sep (y # ys)"

fun format_lines :: "(ustr \<times> json) list \<Rightarrow> exn + ustr list" where
  "format_lines [] = Inr []"
| "format_lines ((email, status) # rest) =
     (case status_map_get status of
        Inl e \<Rightarrow> Inl e
      | Inr label \<Rightarrow>
          (case format_lines rest of
             Inl e \<Rightarrow> Inl e
           | Inr ls \<Rightarrow> Inr ((label @ [0x20, 0x2013, 0x20] @ email) # ls)))"

text \<open>\<open>format_results\<close> is handed whatever \<open>response.json()\<close> gave; only a dict has
  \<open>items\<close>.\<close>

fun format_results :: "json \<Rightarrow> exn + ustr" where
  "format_results (JObj results) =
     (case format_lines results of Inl e \<Rightarrow> Inl e | Inr ls \<Rightarrow> Inr (join [10] ls))"
| "format_results j = Inl AttributeError"

subsection \<open>Outbound calls\<close>

text \<open>
  A call through \<open>requests\<close> with the arguments the code passes; \<open>timeout\<close> is the
  library's parameter of that name, \<open>None\<close> (wait without limit) unless the caller gives
  one. The call either raises or returns a status code with a body, \<open>None\<close> when the
  body is not JSON.
\<close>

record http_call =
  meth :: string
  url :: string
  json_body :: "json option"
  call_headers :: "(ustr \<times> ustr) list"
  timeout :: "nat option"

datatype http_result = Raised exn | Response nat "json option"

definition status_call :: http_call where
  "status_call =
     \<lparr>meth = ''GET'', url = ''http://127.0.0.1:8000/status'', json_body = None,
      call_headers = [], timeout = None\<rparr>"

definition check_emails_call :: "ustr \<Rightarrow> ustr list \<Rightarrow> http_call" where
  "check_emails_call key es =
     \<lparr>meth = ''POST'', url = ''http://127.0.0.1:8000/check_emails'',
      json_body = Some (JObj [(str ''emails'', JArr (map JStr es))]),
      call_headers = [(str ''x-api-key'', key)], timeout = None\<rparr>"

subsection \<open>Handlers\<close>

text \<open>
  The messages the handlers send, by kind: the guidance of line 131, the validation
  error of line 136, the progress line with its count, the rendered results, the error
  line with the exception it prints, and the three answers of \<open>status_command\<close>.
\<close>

datatype reply =
    PressStartFirst
  | SendValidEmails
  | Checking nat
  | ResultText ustr
  | ErrorText exn
  | BackendUp
  | BackendError
  | BackendUnreachable

text \<open>The world outside the handler: what the Service answers to a call, and which
  messages the chat transport fails to deliver (\<open>reply_text\<close> raises then).\<close>

record world =
  http :: "http_call \<Rightarrow> http_result"
  tg_fails :: "reply \<Rightarrow> bool"

text \<open>What a run of \<open>handle_message\<close> leaves behind: \<open>user_check_state\<close>, the messages
  delivered, the call made to the Service if any, and the exception that left the handler
  if any.\<close>

record outcome =
  state :: "int \<rightharpoonup> bool"
  replies :: "reply list"
  posted :: "http_call option"
  raised :: "exn option"

definition status_command :: "world \<Rightarrow> reply" where
  "status_command w =
     (case http w status_call of
        Raised e \<Rightarrow> BackendUnreachable
      | Response code b \<Rightarrow> if code = 200 then BackendUp else BackendError)"

text \<open>The body of the \<open>try\<close> block up to the reply: the value to send, or the exception
  raised on the way. \<open>raise_for_status\<close> raises on the codes 400 to 599.\<close>

definition try_check :: "http_result \<Rightarrow> exn + ustr" where
  "try_check r =
     (case r of
        Raised e \<Rightarrow> Inl e
      | Response code b \<Rightarrow>
          if 400 \<le> code \<and> code < 600 then Inl (HTTPError code)
          else (case b of None \<Rightarrow> Inl JSONDecodeError | Some results \<Rightarrow> format_results results))"

definition handle_message :: "ustr \<Rightarrow> world \<Rightarrow> (int \<rightharpoonup> bool) \<Rightarrow> int \<Rightarrow> ustr \<Rightarrow> outcome" where
  "handle_message key w st user_id text =
     (if st user_id \<noteq> Some True then
        (if tg_fails w PressStartFirst
         then \<lparr>state = st, replies = [], posted = None, raised = Some TelegramError\<rparr>
         else \<lparr>state = st, replies = [PressStartFirst], posted = None, raised = None\<rparr>)
      else let es = parse_emails text in
        if es = [] then
          (if tg_fails w SendValidEmails
           then \<lparr>state = st, replies = [], posted = None, raised = Some TelegramError\<rparr>
           else \<lparr>state = st, replies = [SendValidEmails], posted = None, raised = None\<rparr>)
        else if tg_fails w (Checking (length es))
        then \<lparr>state = st, replies = [], posted = None, raised = Some TelegramError\<rparr>
        else
          let call = check_emails_call key es;
              sent = (case try_check (http w call) of
                        Inl e \<Rightarrow> Inl e
                      | Inr t \<Rightarrow> if tg_fails w (ResultText t) then Inl TelegramError
                                 else Inr t)
          in case sent of
               Inr t \<Rightarrow>
                 \<lparr>state = st(user_id \<mapsto> False),
                  replies = [Checking (length es), ResultText t],
                  posted = Some call, raised = None\<rparr>
             | Inl e \<Rightarrow>
                 if tg_fails w (ErrorText e)
                 then \<lparr>state = st(user_id \<mapsto> False),
                       replies = [Checking (length es)],
                       posted = Some call, raised = Some TelegramError\<rparr>
                 else \<lparr>state = st(user_id \<mapsto> False),
                       replies = [Checking (length es), ErrorText e],
                       posted = Some call, raised = None\<rparr>)"

subsection \<open>Start-up\<close>

text \<open>The main block after the backend thread is started: either the process exits with a
  code and a printed line, or the bot is built with a token and polls.\<close>

datatype startup = Exit nat ustr | Polling ustr

definition bot_main :: "(ustr \<rightharpoonup> ustr) \<Rightarrow> startup" where
  "bot_main env =
     (if TELEGRAM_BOT_TOKEN env = []
      then Exit 1 (0x274C # str '' TELEGRAM_BOT_TOKEN is missing.'')
      else Polling (TELEGRAM_BOT_TOKEN env))"

section \<open>Properties of the string operations\<close>

lemma str_at: "str ''@'' = [64]" and str_dot: "str ''.'' = [46]"
  by (simp_all add: str_def)

lemma str_eq_iff [simp]: "str a = str b \<longleftrightarrow> a = b"
proof -
  have "inj (of_char :: char \<Rightarrow> nat)" by (rule injI) simp
  then show ?thesis unfolding str_def by (rule inj_map_eq_map)
qed

lemma startswith_single: "startswith s [c] = (s \<noteq> [] \<and> hd s = c)"
  by (cases s) auto

lemma contains_single: "contains [c] s = (c \<in> set s)"
  by (induction s) (auto simp: startswith_single)

lemma startswith_iff: "startswith s sub = (\<exists>q. s = sub @ q)"
  by (induction s sub rule: startswith.induct) auto

lemma contains_iff: "contains sub s = (\<exists>p q. s = p @ sub @ q)"
proof (induction s)
  case Nil
  then show ?case by simp
next
  case (Cons c s)
  show ?case
  proof
    assume "contains sub (c # s)"
    then consider "startswith (c # s) sub" | "contains sub s" by auto
    then show "\<exists>p q. c # s = p @ sub @ q"
    proof cases
      case 1
      then obtain q where "c # s = sub @ q" by (auto simp: startswith_iff)
      then have "c # s = [] @ sub @ q" by simp
      then show ?thesis by blast
    next
      case 2
      then obtain p q where "s = p @ sub @ q" using Cons.IH by blast
      then have "c # s = (c # p) @ sub @ q" by simp
      then show ?thesis by blast
    qed
  next
    assume "\<exists>p q. c # s = p @ sub @ q"
    then obtain p q where pq: "c # s = p @ sub @ q" by blast
    show "contains sub (c # s)"
    proof (cases p)
      case Nil
      then have "startswith (c # s) sub" using pq by (auto simp: startswith_iff)
      then show ?thesis by simp
    next
      case (Cons d p')
      then have "s = p' @ sub @ q" using pq by simp
      then have "contains sub s" using Cons.IH by blast
      then show ?thesis by simp
    qed
  qed
qed

lemma set_strip_subset: "set (strip s) \<subseteq> set s"
proof -
  have a: "set (dropWhile isspace xs) \<subseteq> set xs" for xs
    by (auto dest: set_dropWhileD)
  have "set (strip s) \<subseteq> set (dropWhile isspace s)"
    unfolding strip_def using a [of "rev (dropWhile isspace s)"] by simp
  also have "\<dots> \<subseteq> set s" by (rule a)
  finally show ?thesis .
qed

lemma dropWhile_keeps: "c \<in> set s \<Longrightarrow> \<not> P c \<Longrightarrow> c \<in> set (dropWhile P s)"
  by (induction s) auto

lemma strip_keeps: assumes "c \<in> set s" and "\<not> isspace c" shows "c \<in> set (strip s)"
proof -
  have "c \<in> set (dropWhile isspace s)" using assms by (rule dropWhile_keeps)
  then have "c \<in> set (rev (dropWhile isspace s))" by simp
  then have "c \<in> set (dropWhile isspace (rev (dropWhile isspace s)))"
    using assms(2) by (rule dropWhile_keeps)
  then show ?thesis by (simp only: strip_def set_rev)
qed

lemma strip_decomp:
  "dropWhile isspace s = strip s @ rev (takeWhile isspace (rev (dropWhile isspace s)))"
proof -
  let ?r = "rev (dropWhile isspace s)"
  have "strip s @ rev (takeWhile isspace ?r) = rev (takeWhile isspace ?r @ dropWhile isspace ?r)"
    by (simp only: strip_def rev_append)
  also have "\<dots> = rev ?r" by (simp only: takeWhile_dropWhile_id)
  also have "\<dots> = dropWhile isspace s" by (simp only: rev_rev_ident)
  finally show ?thesis by (rule sym)
qed

lemma strip_hd: assumes "strip s \<noteq> []" shows "\<not> isspace (hd (strip s))"
proof -
  have ne: "dropWhile isspace s \<noteq> []"
  proof
    assume d: "dropWhile isspace s = []"
    have "strip s = []" by (simp only: strip_def d rev.simps dropWhile.simps)
    then show False using assms by simp
  qed
  have "hd (dropWhile isspace s) = hd (strip s)"
    using assms strip_decomp [of s] by (metis hd_append2)
  moreover have "\<not> isspace (hd (dropWhile isspace s))" using ne by (rule hd_dropWhile)
  ultimately show ?thesis by simp
qed

lemma strip_last: assumes "strip s \<noteq> []" shows "\<not> isspace (last (strip s))"
proof -
  let ?r = "dropWhile isspace (rev (dropWhile isspace s))"
  have ne: "?r \<noteq> []" using assms by (simp add: strip_def)
  have "last (strip s) = hd ?r" using ne by (simp add: strip_def last_rev)
  moreover have "\<not> isspace (hd ?r)" using ne by (rule hd_dropWhile)
  ultimately show ?thesis by simp
qed

lemma splitlines_from_set:
  "l \<in> set (splitlines_from cur cs) \<Longrightarrow> c \<in> set l \<Longrightarrow>
     c \<in> set cur \<or> (c \<in> set cs \<and> \<not> is_linebreak c)"
proof (induction cur cs arbitrary: l rule: splitlines_from.induct)
  case (1 cur)
  then show ?case by (auto split: if_splits)
next
  case (2 cur c' cs)
  note mem = \<open>l \<in> set (splitlines_from cur (c' # cs))\<close> and cl = \<open>c \<in> set l\<close>
  show ?case
  proof (cases "c' = 13")
    case True
    show ?thesis
    proof (cases cs)
      case Nil
      then have "l = rev cur" using mem True by simp
      then show ?thesis using cl by simp
    next
      case (Cons d ds)
      show ?thesis
      proof (cases "d = 10")
        case d: True
        then have "l = rev cur \<or> l \<in> set (splitlines_from [] ds)"
          using mem True Cons by simp
        then show ?thesis using "2.IH"(2) [OF True Cons d _ cl] cl Cons by auto
      next
        case d: False
        then have "l = rev cur \<or> l \<in> set (splitlines_from [] cs)"
          using mem True Cons by simp
        then show ?thesis using "2.IH"(3) [OF True Cons d _ cl] cl by auto
      qed
    qed
  next
    case False
    show ?thesis
    proof (cases "is_linebreak c'")
      case True
      then have "l = rev cur \<or> l \<in> set (splitlines_from [] cs)"
        using mem False by simp
      then show ?thesis using "2.IH"(4) [OF False True _ cl] cl by auto
    next
      case nb: False
      then have "l \<in> set (splitlines_from (c' # cur) cs)"
        using mem False by simp
      then show ?thesis using "2.IH"(5) [OF False nb _ cl] nb by auto
    qed
  qed
qed

lemma splitlines_set:
  "l \<in> set (splitlines text) \<Longrightarrow> c \<in> set l \<Longrightarrow> c \<in> set text \<and> \<not> is_linebreak c"
  using splitlines_from_set [of l "[]" "text" c] by (simp add: splitlines_def)

lemma replace_comma_no_comma: "44 \<notin> set (replace_comma text)"
  by (auto simp: replace_comma_def)

lemma parse_emails_entry:
  assumes "e \<in> set (parse_emails text)"
  obtains line where "line \<in> set (splitlines (replace_comma text))"
    and "64 \<in> set line" and "46 \<in> set line" and "e = strip line"
  using assms by (auto simp: parse_emails_def str_at str_dot contains_single)

lemma parse_emails_entry_props:
  assumes e: "e \<in> set (parse_emails text)"
  shows "contains (str ''@'') e" and "contains (str ''.'') e" and "\<not> contains (str '','') e"
    and "\<forall>c \<in> set e. \<not> is_linebreak c" and "\<not> isspace (hd e)" and "\<not> isspace (last e)"
proof -
  from e obtain line where line: "line \<in> set (splitlines (replace_comma text))"
    and at: "64 \<in> set line" and dot: "46 \<in> set line" and st: "e = strip line"
    by (rule parse_emails_entry)
  have at': "64 \<in> set e" using at st by (simp add: strip_keeps isspace_def)
  show "contains (str ''@'') e" using at' by (simp add: str_at contains_single)
  show "contains (str ''.'') e" using dot st
    by (simp add: str_dot contains_single strip_keeps isspace_def)
  have sub: "set e \<subseteq> set line" using st set_strip_subset by simp
  have "44 \<notin> set line" using splitlines_set [OF line] replace_comma_no_comma by blast
  then have "44 \<notin> set e" using sub by blast
  then show "\<not> contains (str '','') e" by (simp add: str_def contains_single)
  show "\<forall>c \<in> set e. \<not> is_linebreak c" using splitlines_set [OF line] sub by blast
  have ne: "strip line \<noteq> []" using at' st by auto
  show "\<not> isspace (hd e)" using strip_hd [OF ne] st by simp
  show "\<not> isspace (last e)" using strip_last [OF ne] st by simp
qed

subsection \<open>Splitting as the specification words it\<close>

lemma split_on_nonempty: "split_on P cs \<noteq> []"
  by (cases cs) (simp_all split: list.splits)

lemma split_on_Cons:
  "split_on P (c # cs) =
     (if P c then [] # split_on P cs else (c # hd (split_on P cs)) # tl (split_on P cs))"
  using split_on_nonempty [of P cs] by (cases "split_on P cs") simp_all

declare split_on.simps(2) [simp del] split_on_Cons [simp]

lemma split_on_hd_tl: "set (split_on P cs) = insert (hd (split_on P cs)) (set (tl (split_on P cs)))"
  using split_on_nonempty [of P cs] by (cases "split_on P cs") simp_all

lemma split_on_map:
  "(\<And>c. P (f c) = Q c) \<Longrightarrow> (\<And>c. \<not> Q c \<Longrightarrow> f c = c) \<Longrightarrow>
     split_on P (map f cs) = split_on Q cs"
  by (induction cs) simp_all

lemma split_on_replace_comma:
  "split_on is_linebreak (replace_comma cs) = split_on is_separator cs"
  unfolding replace_comma_def
  by (rule split_on_map) (simp_all add: is_separator_def is_linebreak_def)

lemma split_on_mem:
  "l \<in> set (split_on P cs) \<longleftrightarrow> l = hd (split_on P cs) \<or> l \<in> set (tl (split_on P cs))"
  using split_on_hd_tl [of P cs] by auto

lemma splitlines_from_split_on:
  "l \<noteq> [] \<Longrightarrow>
     l \<in> set (splitlines_from cur cs) \<longleftrightarrow>
       l = rev cur @ hd (split_on is_linebreak cs) \<or> l \<in> set (tl (split_on is_linebreak cs))"
proof (induction cur cs rule: splitlines_from.induct)
  case (1 cur)
  then show ?case by simp
next
  case (2 cur c cs)
  note ne = \<open>l \<noteq> []\<close>
  show ?case
  proof (cases "c = 13")
    case True
    then have lb: "is_linebreak c" by (simp add: is_linebreak_def)
    have rhs: "(l = rev cur @ hd (split_on is_linebreak (c # cs))
                \<or> l \<in> set (tl (split_on is_linebreak (c # cs))))
             \<longleftrightarrow> (l = rev cur \<or> l \<in> set (split_on is_linebreak cs))"
      using lb by simp
    show ?thesis
    proof (cases cs)
      case Nil
      have "l \<in> set (splitlines_from cur (c # cs)) \<longleftrightarrow> l = rev cur"
        using True Nil by simp
      moreover have "l \<in> set (split_on is_linebreak cs) \<longleftrightarrow> False"
        using Nil ne by simp
      ultimately show ?thesis using rhs by simp
    next
      case (Cons d ds)
      show ?thesis
      proof (cases "d = 10")
        case d: True
        then have lbd: "is_linebreak d" by (simp add: is_linebreak_def)
        have "l \<in> set (splitlines_from cur (c # cs)) \<longleftrightarrow>
                l = rev cur \<or> l \<in> set (splitlines_from [] ds)"
          using True Cons d by simp
        moreover have "l \<in> set (splitlines_from [] ds) \<longleftrightarrow> l \<in> set (split_on is_linebreak ds)"
          using "2.IH"(2) [OF True Cons d ne] split_on_mem [of l is_linebreak ds] by simp
        moreover have "l \<in> set (split_on is_linebreak cs) \<longleftrightarrow> l \<in> set (split_on is_linebreak ds)"
          using Cons lbd ne by simp
        ultimately show ?thesis using rhs by simp
      next
        case d: False
        have "l \<in> set (splitlines_from cur (c # cs)) \<longleftrightarrow>
                l = rev cur \<or> l \<in> set (splitlines_from [] cs)"
          using True Cons d by simp
        moreover have "l \<in> set (splitlines_from [] cs) \<longleftrightarrow> l \<in> set (split_on is_linebreak cs)"
          using "2.IH"(3) [OF True Cons d ne] split_on_mem [of l is_linebreak cs] by simp
        ultimately show ?thesis using rhs by simp
      qed
    qed
  next
    case False
    show ?thesis
    proof (cases "is_linebreak c")
      case True
      have rhs: "(l = rev cur @ hd (split_on is_linebreak (c # cs))
                \<or> l \<in> set (tl (split_on is_linebreak (c # cs))))
             \<longleftrightarrow> (l = rev cur \<or> l \<in> set (split_on is_linebreak cs))"
        using True by simp
      have "l \<in> set (splitlines_from cur (c # cs)) \<longleftrightarrow>
              l = rev cur \<or> l \<in> set (splitlines_from [] cs)"
        using False True by simp
      moreover have "l \<in> set (splitlines_from [] cs) \<longleftrightarrow> l \<in> set (split_on is_linebreak cs)"
        using "2.IH"(4) [OF False True ne] split_on_mem [of l is_linebreak cs] by simp
      ultimately show ?thesis using rhs by simp
    next
      case nb: False
      have "l \<in> set (splitlines_from cur (c # cs)) \<longleftrightarrow>
              l \<in> set (splitlines_from (c # cur) cs)"
        using False nb by simp
      then show ?thesis using "2.IH"(5) [OF False nb ne] nb by simp
    qed
  qed
qed

lemma splitlines_split_on:
  "l \<noteq> [] \<Longrightarrow> l \<in> set (splitlines text) \<longleftrightarrow> l \<in> set (split_on is_linebreak text)"
  using splitlines_from_split_on [of l "[]" "text"] split_on_mem [of l is_linebreak "text"]
  by (simp add: splitlines_def)

text \<open>The pieces of \<open>split_on\<close> are the stretches of the text that hold no separator and
  reach on both sides to a separator or to an end of the text.\<close>

lemma split_on_hd:
  "\<exists>post. cs = hd (split_on P cs) @ post \<and> (\<forall>c \<in> set (hd (split_on P cs)). \<not> P c)
      \<and> (post = [] \<or> P (hd post))"
  by (induction cs) auto

lemma split_on_tl:
  "p \<in> set (tl (split_on P cs)) \<Longrightarrow>
     \<exists>pre post. cs = pre @ p @ post \<and> pre \<noteq> [] \<and> P (last pre) \<and> (\<forall>c \<in> set p. \<not> P c)
       \<and> (post = [] \<or> P (hd post))"
proof (induction cs)
  case Nil
  then show ?case by simp
next
  case (Cons c cs)
  show ?case
  proof (cases "P c")
    case True
    then have "p \<in> set (split_on P cs)" using Cons.prems by simp
    then consider "p = hd (split_on P cs)" | "p \<in> set (tl (split_on P cs))"
      using split_on_hd_tl [of P cs] by auto
    then show ?thesis
    proof cases
      case 1
      obtain post where "cs = p @ post" and "\<forall>c \<in> set p. \<not> P c" and "post = [] \<or> P (hd post)"
        using split_on_hd [of cs P] 1 by auto
      then have "c # cs = [c] @ p @ post \<and> [c] \<noteq> [] \<and> P (last [c]) \<and> (\<forall>c \<in> set p. \<not> P c)
          \<and> (post = [] \<or> P (hd post))"
        using True by simp
      then show ?thesis by blast
    next
      case 2
      then obtain pre post where "cs = pre @ p @ post" and "pre \<noteq> []" and "P (last pre)"
        and "\<forall>c \<in> set p. \<not> P c" and "post = [] \<or> P (hd post)"
        using Cons.IH by blast
      then have "c # cs = (c # pre) @ p @ post \<and> c # pre \<noteq> [] \<and> P (last (c # pre))
          \<and> (\<forall>c \<in> set p. \<not> P c) \<and> (post = [] \<or> P (hd post))"
        by simp
      then show ?thesis by blast
    qed
  next
    case False
    then have "p \<in> set (tl (split_on P cs))" using Cons.prems by simp
    then obtain pre post where "cs = pre @ p @ post" and "pre \<noteq> []" and "P (last pre)"
      and "\<forall>c \<in> set p. \<not> P c" and "post = [] \<or> P (hd post)"
      using Cons.IH by blast
    then have "c # cs = (c # pre) @ p @ post \<and> c # pre \<noteq> [] \<and> P (last (c # pre))
        \<and> (\<forall>c \<in> set p. \<not> P c) \<and> (post = [] \<or> P (hd post))"
      by simp
    then show ?thesis by blast
  qed
qed

lemma split_on_sound:
  assumes "p \<in> set (split_on P cs)"
  shows "\<exists>pre post. cs = pre @ p @ post \<and> (\<forall>c \<in> set p. \<not> P c)
       \<and> (pre = [] \<or> P (last pre)) \<and> (post = [] \<or> P (hd post))"
proof -
  consider "p = hd (split_on P cs)" | "p \<in> set (tl (split_on P cs))"
    using assms split_on_hd_tl [of P cs] by auto
  then show ?thesis
  proof cases
    case 1
    obtain post where "cs = p @ post" and "\<forall>c \<in> set p. \<not> P c" and "post = [] \<or> P (hd post)"
      using split_on_hd [of cs P] 1 by auto
    then have "cs = [] @ p @ post \<and> (\<forall>c \<in> set p. \<not> P c)
       \<and> ([] = [] \<or> P (last [])) \<and> (post = [] \<or> P (hd post))"
      by simp
    then show ?thesis by blast
  next
    case 2
    then show ?thesis using split_on_tl [of p P cs] by blast
  qed
qed

lemma split_on_first:
  "cs = p @ post \<Longrightarrow> \<forall>c \<in> set p. \<not> P c \<Longrightarrow> post = [] \<or> P (hd post) \<Longrightarrow>
     hd (split_on P cs) = p"
proof (induction p arbitrary: cs)
  case Nil
  then show ?case by (cases post) auto
next
  case (Cons c p)
  then have "hd (split_on P (p @ post)) = p" by simp
  then show ?case using Cons.prems by simp
qed

lemma split_on_later:
  "cs = pre @ p @ post \<Longrightarrow> pre \<noteq> [] \<Longrightarrow> P (last pre) \<Longrightarrow> \<forall>c \<in> set p. \<not> P c \<Longrightarrow>
     post = [] \<or> P (hd post) \<Longrightarrow> p \<in> set (tl (split_on P cs))"
proof (induction pre arbitrary: cs)
  case Nil
  then show ?case by simp
next
  case (Cons c pre)
  show ?case
  proof (cases "pre = []")
    case True
    then have pc: "P c" using Cons.prems(3) by simp
    have "hd (split_on P (p @ post)) = p"
      using Cons.prems(4,5) by (simp add: split_on_first)
    then have "p \<in> set (split_on P (p @ post))"
      using split_on_hd_tl [of P "p @ post"] by simp
    then show ?thesis using Cons.prems(1) True pc by simp
  next
    case False
    then have "P (last pre)" using Cons.prems(3) by simp
    then have t: "p \<in> set (tl (split_on P (pre @ p @ post)))"
      using Cons.IH [OF refl False _ Cons.prems(4,5)] by simp
    then have "p \<in> set (split_on P (pre @ p @ post))"
      using split_on_hd_tl [of P "pre @ p @ post"] by simp
    then show ?thesis using t Cons.prems(1) by simp
  qed
qed

lemma split_on_pieces:
  "p \<in> set (split_on P cs) \<longleftrightarrow>
     (\<exists>pre post. cs = pre @ p @ post \<and> (\<forall>c \<in> set p. \<not> P c)
        \<and> (pre = [] \<or> P (last pre)) \<and> (post = [] \<or> P (hd post)))"
proof
  assume "p \<in> set (split_on P cs)"
  then show "\<exists>pre post. cs = pre @ p @ post \<and> (\<forall>c \<in> set p. \<not> P c)
        \<and> (pre = [] \<or> P (last pre)) \<and> (post = [] \<or> P (hd post))"
    by (rule split_on_sound)
next
  assume "\<exists>pre post. cs = pre @ p @ post \<and> (\<forall>c \<in> set p. \<not> P c)
        \<and> (pre = [] \<or> P (last pre)) \<and> (post = [] \<or> P (hd post))"
  then obtain pre post where d: "cs = pre @ p @ post" and np: "\<forall>c \<in> set p. \<not> P c"
    and l: "pre = [] \<or> P (last pre)" and r: "post = [] \<or> P (hd post)"
    by blast
  show "p \<in> set (split_on P cs)"
  proof (cases "pre = []")
    case True
    then have "hd (split_on P cs) = p" using d np r by (simp add: split_on_first)
    then show ?thesis using split_on_hd_tl [of P cs] by simp
  next
    case False
    then have "p \<in> set (tl (split_on P cs))" using d np l r by (simp add: split_on_later)
    then show ?thesis using split_on_hd_tl [of P cs] by simp
  qed
qed

lemma parse_emails_set:
  "set (parse_emails text) =
     strip ` {p \<in> set (split_on is_separator text).
                contains (str ''@'') p \<and> contains (str ''.'') p}"
proof -
  have ne: "p \<noteq> []" if "contains (str ''@'') p" for p
    using that by (auto simp: str_at contains_single)
  have "l \<in> set (splitlines (replace_comma text)) \<longleftrightarrow> l \<in> set (split_on is_separator text)"
    if "contains (str ''@'') l" for l
    using splitlines_split_on [OF ne [OF that], of "replace_comma text"]
    by (simp add: split_on_replace_comma)
  then have "{l \<in> set (splitlines (replace_comma text)). contains (str ''@'') l \<and> contains (str ''.'') l}
     = {p \<in> set (split_on is_separator text). contains (str ''@'') p \<and> contains (str ''.'') p}"
    by blast
  then show ?thesis by (simp add: parse_emails_def)
qed

subsection \<open>The loops of the two services\<close>

lemma fold_update_map_of:
  "map_of (foldl (\<lambda>r e. AList.update e (f e) r) acc es) k =
     (if k \<in> set es then Some (f k) else map_of acc k)"
proof (induction es arbitrary: acc)
  case Nil
  then show ?case by simp
next
  case (Cons e es)
  show ?case by (simp add: Cons.IH update_conv)
qed

lemma fold_update_keys:
  "fst ` set (foldl (\<lambda>r e. AList.update e (f e) r) acc es) = fst ` set acc \<union> set es"
proof (induction es arbitrary: acc)
  case Nil
  then show ?case by simp
next
  case (Cons e es)
  show ?case by (simp add: Cons.IH dom_update)
qed

lemma fold_update_distinct:
  "distinct (map fst acc) \<Longrightarrow>
     distinct (map fst (foldl (\<lambda>r e. AList.update e (f e) r) acc es))"
proof (induction es arbitrary: acc)
  case Nil
  then show ?case by simp
next
  case (Cons e es)
  have "distinct (map fst (AList.update e (f e) acc))"
    using Cons.prems by (rule distinct_update)
  then show ?case using Cons.IH by simp
qed

lemma bot_loop_strs:
  "bot_loop acc (map JStr es) =
     Inr (foldl (\<lambda>r e. AList.update e (substring_label e) r) acc es)"
  by (induction es arbitrary: acc) simp_all

lemma main_loop_fold:
  "main_loop lower acc es =
     foldl (\<lambda>r e. AList.update e
        (case map_of SIMULATED_DATABASE (lower e) of None \<Rightarrow> str ''no'' | Some v \<Rightarrow> v) r) acc es"
  by (induction es arbitrary: acc) simp_all

lemma check_emails_bot_strs:
  assumes "map_of (headers req) (str ''x-api-key'') = Some key"
    and "body req = Some (JObj kvs)"
    and "map_of kvs (str ''emails'') = Some (JArr (map JStr es))"
  shows "check_emails_bot key req =
     Results (foldl (\<lambda>r e. AList.update e (substring_label e) r) [] es)"
  using assms by (simp add: check_emails_bot_def bot_loop_strs)

lemma all_str_map: "all_str (map JStr es) = Some es"
  by (induction es) simp_all

lemma key_absent: "e \<notin> fst ` set r \<Longrightarrow> filter (\<lambda>kv. fst kv = e) r = []"
  by (induction r) auto

lemma key_once:
  "distinct (map fst r) \<Longrightarrow> e \<in> fst ` set r \<Longrightarrow> length (filter (\<lambda>kv. fst kv = e) r) = 1"
proof (induction r)
  case Nil
  then show ?case by simp
next
  case (Cons kv r)
  show ?case
  proof (cases "fst kv = e")
    case True
    then have "e \<notin> fst ` set r" using Cons.prems(1) by auto
    then show ?thesis using True by (simp add: key_absent)
  next
    case False
    then have "e \<in> fst ` set r" using Cons.prems(2) by auto
    then show ?thesis using False Cons.IH Cons.prems(1) by simp
  qed
qed

subsection \<open>What can be encoded\<close>

lemma str_append: "str (a @ b) = str a @ str b"
  by (simp add: str_def)

lemma encodable_str: "encodable (str s)"
proof -
  have "of_char c < (256::nat)" for c :: char
  proof -
    have "(of_char c :: nat) mod 256 = of_char c" by simp
    then show ?thesis by (metis mod_less_divisor zero_less_numeral)
  qed
  then have "of_char c < (0xD800::nat)" for c :: char
    by (rule less_trans) simp
  then show ?thesis by (simp add: encodable_def str_def list_all_iff)
qed

lemma substring_label_encodable: "encodable (substring_label e)"
  by (simp add: substring_label_def encodable_str)

lemma database_label_encodable:
  "encodable (case map_of SIMULATED_DATABASE k of None \<Rightarrow> str ''no'' | Some v \<Rightarrow> v)"
proof (cases "map_of SIMULATED_DATABASE k")
  case None
  then show ?thesis by (simp add: encodable_str)
next
  case (Some v)
  then have "(k, v) \<in> set SIMULATED_DATABASE" by (rule map_of_SomeD)
  then have "\<exists>s. v = str s" by (auto simp: SIMULATED_DATABASE_def)
  then show ?thesis using Some by (auto simp: encodable_str)
qed

lemma fold_update_entries:
  assumes "(k, v) \<in> set (foldl (\<lambda>r e. AList.update e (f e) r) [] es)"
  shows "k \<in> set es \<and> v = f k"
proof -
  let ?r = "foldl (\<lambda>r e. AList.update e (f e) r) [] es"
  have "distinct (map fst ?r)" by (rule fold_update_distinct) simp
  then have "map_of ?r k = Some v" using assms by (rule map_of_is_SomeI)
  then show ?thesis by (simp add: fold_update_map_of split: if_splits)
qed

lemma fold_update_served:
  assumes "\<forall>e \<in> set es. encodable e" and "\<And>e. encodable (f e)"
  shows "served (Results (foldl (\<lambda>r e. AList.update e (f e) r) [] es))
           = Results (foldl (\<lambda>r e. AList.update e (f e) r) [] es)"
proof -
  have "encodable (fst kv) \<and> encodable (snd kv)"
    if "kv \<in> set (foldl (\<lambda>r e. AList.update e (f e) r) [] es)" for kv
  proof -
    have "(fst kv, snd kv) \<in> set (foldl (\<lambda>r e. AList.update e (f e) r) [] es)"
      using that by simp
    then have "fst kv \<in> set es \<and> snd kv = f (fst kv)" by (rule fold_update_entries)
    then show ?thesis using assms by simp
  qed
  then show ?thesis by (simp add: list_all_iff)
qed

subsection \<open>The message handler\<close>

lemma handle_message_sent:
  assumes "st user_id = Some True" and "parse_emails text \<noteq> []"
    and "\<not> tg_fails w (Checking (length (parse_emails text)))"
  shows "state (handle_message key w st user_id text) user_id = Some False"
    and "posted (handle_message key w st user_id text)
           = Some (check_emails_call key (parse_emails text))"
  using assms
  by (simp_all add: handle_message_def Let_def split: sum.splits)


lemma handle_message_raised:
  assumes "st user_id = Some True" and "parse_emails text \<noteq> []"
    and "\<not> tg_fails w (Checking (length (parse_emails text)))"
    and "http w (check_emails_call key (parse_emails text)) = Raised e"
    and "\<not> tg_fails w (ErrorText e)"
  shows "replies (handle_message key w st user_id text)
           = [Checking (length (parse_emails text)), ErrorText e]"
  using assms by (simp add: handle_message_def Let_def try_check_def)

section \<open>The claims\<close>

text \<open>
  C6. For every text, \<open>parse_emails\<close> returns a list without duplicates, and an entry is
  in it exactly when it is the stripped form of a piece of the text that holds both \<open>@\<close>
  and \<open>.\<close>, where a piece is a stretch of the text without comma or line boundary that
  reaches on each side to a comma, a line boundary or an end of the text. So every
  entry contains \<open>@\<close> and \<open>.\<close>, none holds a comma or a line boundary, and none starts or
  ends with whitespace.
\<close>

theorem parse_emails_split_strip:
  "distinct (parse_emails text) \<and>
   (\<forall>e. e \<in> set (parse_emails text) \<longleftrightarrow>
      (\<exists>pre p post. text = pre @ p @ post \<and> (\<forall>c \<in> set p. \<not> is_separator c)
         \<and> (pre = [] \<or> is_separator (last pre)) \<and> (post = [] \<or> is_separator (hd post))
         \<and> contains (str ''@'') p \<and> contains (str ''.'') p \<and> e = strip p)) \<and>
   set (parse_emails text) =
     strip ` {p \<in> set (split_on is_separator text).
                contains (str ''@'') p \<and> contains (str ''.'') p} \<and>
   (\<forall>e \<in> set (parse_emails text).
      contains (str ''@'') e \<and> contains (str ''.'') e \<and>
      \<not> contains (str '','') e \<and> (\<forall>c \<in> set e. \<not> is_linebreak c) \<and>
      \<not> isspace (hd e) \<and> \<not> isspace (last e))"
proof (intro conjI)
  show "distinct (parse_emails text)" by (simp add: parse_emails_def)
next
  show "\<forall>e. e \<in> set (parse_emails text) \<longleftrightarrow>
      (\<exists>pre p post. text = pre @ p @ post \<and> (\<forall>c \<in> set p. \<not> is_separator c)
         \<and> (pre = [] \<or> is_separator (last pre)) \<and> (post = [] \<or> is_separator (hd post))
         \<and> contains (str ''@'') p \<and> contains (str ''.'') p \<and> e = strip p)"
  proof
    fix e
    have "e \<in> set (parse_emails text) \<longleftrightarrow>
        (\<exists>p. p \<in> set (split_on is_separator text)
             \<and> contains (str ''@'') p \<and> contains (str ''.'') p \<and> e = strip p)"
      unfolding parse_emails_set by blast
    also have "\<dots> \<longleftrightarrow>
        (\<exists>p. (\<exists>pre post. text = pre @ p @ post \<and> (\<forall>c \<in> set p. \<not> is_separator c)
                 \<and> (pre = [] \<or> is_separator (last pre)) \<and> (post = [] \<or> is_separator (hd post)))
             \<and> contains (str ''@'') p \<and> contains (str ''.'') p \<and> e = strip p)"
      by (simp only: split_on_pieces)
    also have "\<dots> \<longleftrightarrow>
        (\<exists>pre p post. text = pre @ p @ post \<and> (\<forall>c \<in> set p. \<not> is_separator c)
         \<and> (pre = [] \<or> is_separator (last pre)) \<and> (post = [] \<or> is_separator (hd post))
         \<and> contains (str ''@'') p \<and> contains (str ''.'') p \<and> e = strip p)"
      by blast
    finally show "e \<in> set (parse_emails text) \<longleftrightarrow>
      (\<exists>pre p post. text = pre @ p @ post \<and> (\<forall>c \<in> set p. \<not> is_separator c)
         \<and> (pre = [] \<or> is_separator (last pre)) \<and> (post = [] \<or> is_separator (hd post))
         \<and> contains (str ''@'') p \<and> contains (str ''.'') p \<and> e = strip p)" .
  qed
next
  show "set (parse_emails text) =
     strip ` {p \<in> set (split_on is_separator text).
                contains (str ''@'') p \<and> contains (str ''.'') p}"
    by (rule parse_emails_set)
next
  show "\<forall>e \<in> set (parse_emails text).
      contains (str ''@'') e \<and> contains (str ''.'') e \<and>
      \<not> contains (str '','') e \<and> (\<forall>c \<in> set e. \<not> is_linebreak c) \<and>
      \<not> isspace (hd e) \<and> \<not> isspace (last e)"
    using parse_emails_entry_props by blast
qed

theorem parse_emails_split_strip_witness:
  "parse_emails (str ''a@b.c, d@e.f ,x, a@b.c'') = [str ''d@e.f'', str ''a@b.c'']
   \<and> str ''d@e.f'' \<in> set (parse_emails (str ''a@b.c, d@e.f ,x, a@b.c''))
   \<and> str ''a@b.c, d@e.f ,x, a@b.c'' = str ''a@b.c,'' @ str '' d@e.f '' @ str '',x, a@b.c''
   \<and> is_separator (last (str ''a@b.c,'')) \<and> is_separator (hd (str '',x, a@b.c''))
   \<and> str ''d@e.f'' = strip (str '' d@e.f '')
   \<and> split_on is_separator (str ''a@b.c, d@e.f ,x, a@b.c'')
        = [str ''a@b.c'', str '' d@e.f '', str ''x'', str '' a@b.c'']
   \<and> parse_emails (str ''x, y'') = []"
proof -
  let ?t = "str ''a@b.c, d@e.f ,x, a@b.c''"
  have d: "?t = str ''a@b.c,'' @ str '' d@e.f '' @ str '',x, a@b.c''"
    by (simp add: str_def)
  have np: "\<forall>c \<in> set (str '' d@e.f ''). \<not> is_separator c"
    by (simp add: str_def is_separator_def is_linebreak_def)
  have l: "is_separator (last (str ''a@b.c,''))"
    by (simp add: str_def is_separator_def)
  have r: "is_separator (hd (str '',x, a@b.c''))"
    by (simp add: str_def is_separator_def)
  have c1: "contains (str ''@'') (str '' d@e.f '')"
    by (simp add: str_def)
  have c2: "contains (str ''.'') (str '' d@e.f '')"
    by (simp add: str_def)
  have s: "str ''d@e.f'' = strip (str '' d@e.f '')"
    by (simp add: str_def strip_def isspace_def)
  have "?t = str ''a@b.c,'' @ str '' d@e.f '' @ str '',x, a@b.c''
         \<and> (\<forall>c \<in> set (str '' d@e.f ''). \<not> is_separator c)
         \<and> (str ''a@b.c,'' = [] \<or> is_separator (last (str ''a@b.c,'')))
         \<and> (str '',x, a@b.c'' = [] \<or> is_separator (hd (str '',x, a@b.c'')))
         \<and> contains (str ''@'') (str '' d@e.f '') \<and> contains (str ''.'') (str '' d@e.f '')
         \<and> str ''d@e.f'' = strip (str '' d@e.f '')"
    by (intro conjI disjI2) (rule d np l r c1 c2 s)+
  then have ex: "\<exists>pre p post. ?t = pre @ p @ post \<and> (\<forall>c \<in> set p. \<not> is_separator c)
         \<and> (pre = [] \<or> is_separator (last pre)) \<and> (post = [] \<or> is_separator (hd post))
         \<and> contains (str ''@'') p \<and> contains (str ''.'') p \<and> str ''d@e.f'' = strip p"
    by - ((rule exI)+, assumption)
  have m: "str ''d@e.f'' \<in> set (parse_emails ?t)"
    by (rule parse_emails_split_strip
          [of ?t, THEN conjunct2, THEN conjunct1, THEN spec, THEN iffD2])
       (rule ex)
  have v: "parse_emails ?t = [str ''d@e.f'', str ''a@b.c'']"
    by (simp add: parse_emails_def str_def replace_comma_def splitlines_def is_linebreak_def
          strip_def isspace_def)
  have f: "split_on is_separator ?t = [str ''a@b.c'', str '' d@e.f '', str ''x'', str '' a@b.c'']"
    by (simp add: str_def is_separator_def is_linebreak_def split_on.simps(2) del: split_on_Cons)
  have n: "parse_emails (str ''x, y'') = []"
    by (simp add: parse_emails_def str_def replace_comma_def splitlines_def is_linebreak_def)
  show ?thesis by (intro conjI) (rule v m d l r s f n)+
qed

text \<open>
  C1 (as amended). When the \<open>x-api-key\<close> header is missing or differs from the configured
  secret, the embedded service answers 401 with its fixed error body whatever the payload
  is, and the stand-alone service's handler answers 403 for every payload of its declared
  model; at the endpoint of the stand-alone service a body that does not fit the model is
  answered with 422 before the key is compared. No answer carries a classification.
\<close>

theorem unauthorized_no_classification:
  assumes "map_of (headers req) (str ''x-api-key'') \<noteq> Some key"
  shows "check_emails_bot key req =
           JSONResponse (JObj [(str ''error'', JStr (str ''Unauthorized''))]) 401
       \<and> check_emails_main lower key req payload = HTTPException 403 (str ''Invalid API key'')
       \<and> post_check_emails_main lower key req =
           (if \<exists>j p. body req = Some j \<and> validate j = Some p
            then HTTPException 403 (str ''Invalid API key'') else RequestValidationError)
       \<and> classification (check_emails_bot key req) = None
       \<and> classification (check_emails_main lower key req payload) = None
       \<and> classification (post_check_emails_main lower key req) = None"
proof -
  have bot: "check_emails_bot key req =
      JSONResponse (JObj [(str ''error'', JStr (str ''Unauthorized''))]) 401"
    using assms by (simp add: check_emails_bot_def)
  have handler: "check_emails_main lower key req p = HTTPException 403 (str ''Invalid API key'')"
    for p using assms by (simp add: check_emails_main_def)
  have endpoint: "post_check_emails_main lower key req =
      (if \<exists>j p. body req = Some j \<and> validate j = Some p
       then HTTPException 403 (str ''Invalid API key'') else RequestValidationError)"
    by (auto simp: post_check_emails_main_def handler split: option.splits)
  have "classification (post_check_emails_main lower key req) = None"
    by (simp add: endpoint)
  then show ?thesis using bot handler endpoint by simp
qed

theorem unauthorized_no_classification_witness:
  "map_of (headers \<lparr>headers = [(str ''x-api-key'', str ''wrong'')],
                    body = Some (JObj [(str ''emails'', JArr [JStr (str ''a@b.c'')])])\<rparr>)
      (str ''x-api-key'') \<noteq> Some (str ''secret'')
   \<and> status_code (check_emails_bot (str ''secret'')
        \<lparr>headers = [(str ''x-api-key'', str ''wrong'')],
         body = Some (JObj [(str ''emails'', JArr [JStr (str ''a@b.c'')])])\<rparr>) = 401
   \<and> status_code (post_check_emails_main ascii_lower (str ''secret'')
        \<lparr>headers = [(str ''x-api-key'', str ''wrong'')],
         body = Some (JObj [(str ''emails'', JArr [JStr (str ''a@b.c'')])])\<rparr>) = 403"
  using unauthorized_no_classification
    [of "\<lparr>headers = [(str ''x-api-key'', str ''wrong'')],
          body = Some (JObj [(str ''emails'', JArr [JStr (str ''a@b.c'')])])\<rparr>"
        "str ''secret''" ascii_lower "\<lparr>emails = [str ''a@b.c'']\<rparr>"]
  by (simp add: str_def)

text \<open>
  C1 as stated fails for the stand-alone service: with a wrong key and the body \<open>{}\<close>,
  which has no \<open>emails\<close> field, the answer is 422 and not 403.
\<close>

theorem unauthorized_any_payload_counterexample:
  "map_of (headers \<lparr>headers = [(str ''x-api-key'', str ''wrong'')], body = Some (JObj [])\<rparr>)
      (str ''x-api-key'') \<noteq> Some (str ''secret'')
   \<and> status_code (post_check_emails_main ascii_lower (str ''secret'')
        \<lparr>headers = [(str ''x-api-key'', str ''wrong'')], body = Some (JObj [])\<rparr>) = 422"
  by (simp add: post_check_emails_main_def str_def)

text \<open>
  C2. Under the fixed dictionary, the request with the matching key and the four example
  addresses is answered with exactly the mapping of the example, for any lower-casing
  that leaves these four lower-case addresses as they are; an address whose lower-cased
  form is not in the table gets the label \<open>no\<close>, which is rendered as Active.
\<close>

theorem fixed_dictionary_example:
  assumes "\<forall>e \<in> set [str ''active@example.com'', str ''flagged@example.com'',
                       str ''blocked@example.com'', str ''nomatch@example.com'']. lower e = e"
  shows "post_check_emails_main lower key
           \<lparr>headers = [(str ''x-api-key'', key)],
            body = Some (JObj [(str ''emails'',
                     JArr [JStr (str ''active@example.com''), JStr (str ''flagged@example.com''),
                           JStr (str ''blocked@example.com''), JStr (str ''nomatch@example.com'')])])\<rparr>
         = Results [(str ''active@example.com'', str ''yes''),
                    (str ''flagged@example.com'', str ''no''),
                    (str ''blocked@example.com'', str ''captcha''),
                    (str ''nomatch@example.com'', str ''no'')]
       \<and> (\<forall>es. \<forall>e \<in> set es. map_of SIMULATED_DATABASE (lower e) = None \<longrightarrow>
             map_of (main_loop lower [] es) e = Some (str ''no''))
       \<and> status_map_get (JStr (str ''no'')) = Inr (0x2705 # str '' Active'')"
proof (intro conjI)
  have l: "lower (str ''active@example.com'') = str ''active@example.com''"
      "lower (str ''flagged@example.com'') = str ''flagged@example.com''"
      "lower (str ''blocked@example.com'') = str ''blocked@example.com''"
      "lower (str ''nomatch@example.com'') = str ''nomatch@example.com''"
    using assms by simp_all
  have m: "main_loop lower [] [str ''active@example.com'', str ''flagged@example.com'',
                       str ''blocked@example.com'', str ''nomatch@example.com'']
      = [(str ''active@example.com'', str ''yes''),
                    (str ''flagged@example.com'', str ''no''),
                    (str ''blocked@example.com'', str ''captcha''),
                    (str ''nomatch@example.com'', str ''no'')]"
    by (simp add: l SIMULATED_DATABASE_def)
  show "post_check_emails_main lower key
           \<lparr>headers = [(str ''x-api-key'', key)],
            body = Some (JObj [(str ''emails'',
                     JArr [JStr (str ''active@example.com''), JStr (str ''flagged@example.com''),
                           JStr (str ''blocked@example.com''), JStr (str ''nomatch@example.com'')])])\<rparr>
         = Results [(str ''active@example.com'', str ''yes''),
                    (str ''flagged@example.com'', str ''no''),
                    (str ''blocked@example.com'', str ''captcha''),
                    (str ''nomatch@example.com'', str ''no'')]"
    by (simp add: post_check_emails_main_def check_emails_main_def m del: main_loop.simps)
  show "\<forall>es. \<forall>e \<in> set es. map_of SIMULATED_DATABASE (lower e) = None \<longrightarrow>
             map_of (main_loop lower [] es) e = Some (str ''no'')"
    by (simp add: main_loop_fold fold_update_map_of)
  show "status_map_get (JStr (str ''no'')) = Inr (0x2705 # str '' Active'')"
    by (simp add: status_map_def str_def)
qed

theorem fixed_dictionary_example_witness:
  "ascii_lower (str ''active@example.com'') = str ''active@example.com''
   \<and> ascii_lower (str ''flagged@example.com'') = str ''flagged@example.com''
   \<and> ascii_lower (str ''blocked@example.com'') = str ''blocked@example.com''
   \<and> ascii_lower (str ''nomatch@example.com'') = str ''nomatch@example.com''
   \<and> post_check_emails_main ascii_lower (str ''secret'')
           \<lparr>headers = [(str ''x-api-key'', str ''secret'')],
            body = Some (JObj [(str ''emails'',
                     JArr [JStr (str ''active@example.com''), JStr (str ''flagged@example.com''),
                           JStr (str ''blocked@example.com''), JStr (str ''nomatch@example.com'')])])\<rparr>
         = Results [(str ''active@example.com'', str ''yes''),
                    (str ''flagged@example.com'', str ''no''),
                    (str ''blocked@example.com'', str ''captcha''),
                    (str ''nomatch@example.com'', str ''no'')]
   \<and> map_of SIMULATED_DATABASE (ascii_lower (str ''Nomatch@example.com'')) = None
   \<and> map_of (main_loop ascii_lower [] [str ''Nomatch@example.com'']) (str ''Nomatch@example.com'')
        = Some (str ''no'')"
proof -
  have l: "ascii_lower (str ''active@example.com'') = str ''active@example.com''"
      "ascii_lower (str ''flagged@example.com'') = str ''flagged@example.com''"
      "ascii_lower (str ''blocked@example.com'') = str ''blocked@example.com''"
      "ascii_lower (str ''nomatch@example.com'') = str ''nomatch@example.com''"
    by (simp_all add: ascii_lower_def str_def)
  have h: "\<forall>e \<in> set [str ''active@example.com'', str ''flagged@example.com'',
                str ''blocked@example.com'', str ''nomatch@example.com'']. ascii_lower e = e"
    using l by simp
  have n: "map_of SIMULATED_DATABASE (ascii_lower (str ''Nomatch@example.com'')) = None"
    by (simp add: SIMULATED_DATABASE_def ascii_lower_def str_def)
  show ?thesis
    using l n fixed_dictionary_example [OF h, of "str ''secret''"] by simp
qed

text \<open>
  C3. Under the substring strategy, for an authorized batch of strings, an email that
  contains \<open>flag\<close> gets the label rendered as Flagged, however it may also contain
  \<open>active\<close>; otherwise one that contains \<open>active\<close> gets the label rendered as Active;
  any other gets the label rendered as Unknown or Error.
\<close>

theorem substring_strategy_labels:
  assumes "map_of (headers req) (str ''x-api-key'') = Some key"
    and "body req = Some (JObj kvs)"
    and "map_of kvs (str ''emails'') = Some (JArr (map JStr es))"
    and "e \<in> set es"
  shows "\<exists>results label.
           check_emails_bot key req = Results results \<and> map_of results e = Some label \<and>
           (if contains (str ''flag'') e
            then label = str ''yes'' \<and>
                 status_map_get (JStr label) = Inr ([0x26A0, 0xFE0F] @ str '' Flagged'')
            else if contains (str ''active'') e
            then label = str ''no'' \<and>
                 status_map_get (JStr label) = Inr (0x2705 # str '' Active'')
            else label = str ''error'' \<and>
                 status_map_get (JStr label) = Inr (0x2753 # str '' Unknown or Error''))"
proof -
  let ?results = "foldl (\<lambda>r e. AList.update e (substring_label e) r) [] es"
  have r: "check_emails_bot key req = Results ?results"
    using assms(1-3) by (rule check_emails_bot_strs)
  have m: "map_of ?results e = Some (substring_label e)"
    using assms(4) by (simp add: fold_update_map_of)
  have yes: "status_map_get (JStr (str ''yes'')) = Inr ([0x26A0, 0xFE0F] @ str '' Flagged'')"
    by (simp add: status_map_def)
  have no: "status_map_get (JStr (str ''no'')) = Inr (0x2705 # str '' Active'')"
    by (simp add: status_map_def)
  have err: "status_map_get (JStr (str ''error'')) = Inr (0x2753 # str '' Unknown or Error'')"
    by (simp add: status_map_def)
  have "if contains (str ''flag'') e
        then substring_label e = str ''yes'' \<and>
             status_map_get (JStr (substring_label e)) = Inr ([0x26A0, 0xFE0F] @ str '' Flagged'')
        else if contains (str ''active'') e
        then substring_label e = str ''no'' \<and>
             status_map_get (JStr (substring_label e)) = Inr (0x2705 # str '' Active'')
        else substring_label e = str ''error'' \<and>
             status_map_get (JStr (substring_label e)) = Inr (0x2753 # str '' Unknown or Error'')"
    using yes no err by (simp add: substring_label_def)
  then show ?thesis using r m by blast
qed

theorem substring_strategy_labels_witness:
  "map_of (headers \<lparr>headers = [(str ''x-api-key'', str ''secret'')],
       body = Some (JObj [(str ''emails'', JArr (map JStr [str ''flag@active.io'', str ''x@y.z'']))])\<rparr>)
     (str ''x-api-key'') = Some (str ''secret'')
   \<and> contains (str ''flag'') (str ''flag@active.io'')
   \<and> contains (str ''active'') (str ''flag@active.io'')
   \<and> check_emails_bot (str ''secret'')
       \<lparr>headers = [(str ''x-api-key'', str ''secret'')],
        body = Some (JObj [(str ''emails'', JArr (map JStr [str ''flag@active.io'', str ''x@y.z'']))])\<rparr>
     = Results [(str ''flag@active.io'', str ''yes''), (str ''x@y.z'', str ''error'')]"
proof -
  have c: "contains (str ''flag'') (str ''flag@active.io'')"
      "contains (str ''active'') (str ''flag@active.io'')"
    by (simp_all add: str_def)
  have b: "check_emails_bot (str ''secret'')
       \<lparr>headers = [(str ''x-api-key'', str ''secret'')],
        body = Some (JObj [(str ''emails'', JArr (map JStr [str ''flag@active.io'', str ''x@y.z'']))])\<rparr>
     = Results [(str ''flag@active.io'', str ''yes''), (str ''x@y.z'', str ''error'')]"
    by (simp add: check_emails_bot_def substring_label_def c) (simp add: str_def)
  show ?thesis
    using c b substring_strategy_labels
      [of "\<lparr>headers = [(str ''x-api-key'', str ''secret'')],
        body = Some (JObj [(str ''emails'', JArr (map JStr [str ''flag@active.io'', str ''x@y.z'']))])\<rparr>"
        "str ''secret''" "[(str ''emails'', JArr (map JStr [str ''flag@active.io'', str ''x@y.z'']))]"
        "[str ''flag@active.io'', str ''x@y.z'']" "str ''flag@active.io''"]
    by simp
qed

text \<open>
  C4 (as amended). For an authorized request whose \<open>emails\<close> field is a list of strings
  that can be encoded (none holds a lone surrogate), each email of the submitted list is
  a key of the mapping the client gets exactly once, spelled as submitted, and the
  mapping has no other key; this holds for the substring service and for the dictionary
  service.
\<close>

theorem every_email_keyed_once:
  assumes "map_of (headers req) (str ''x-api-key'') = Some key"
    and "body req = Some (JObj kvs)"
    and "map_of kvs (str ''emails'') = Some (JArr (map JStr es))"
    and "\<forall>e \<in> set es. encodable e"
  shows "\<exists>r1 r2.
           check_emails_bot key req = Results r1 \<and>
           served (check_emails_bot key req) = Results r1 \<and>
           post_check_emails_main lower key req = Results r2 \<and>
           served (post_check_emails_main lower key req) = Results r2 \<and>
           check_emails_main lower key req \<lparr>emails = es\<rparr> = Results r2 \<and>
           distinct (map fst r1) \<and> set (map fst r1) = set es \<and>
           distinct (map fst r2) \<and> set (map fst r2) = set es \<and>
           (\<forall>e \<in> set es. length (filter (\<lambda>kv. fst kv = e) r1) = 1 \<and>
                         length (filter (\<lambda>kv. fst kv = e) r2) = 1)"
proof -
  let ?r1 = "foldl (\<lambda>r e. AList.update e (substring_label e) r) [] es"
  let ?r2 = "main_loop lower [] es"
  have once: "length (filter (\<lambda>kv. fst kv = e) r) = 1"
    if "distinct (map fst r)" and "e \<in> set (map fst r)" for r :: "(ustr \<times> ustr) list" and e
    using that by (simp add: key_once)
  have b: "check_emails_bot key req = Results ?r1"
    using assms(1-3) by (rule check_emails_bot_strs)
  have sb: "served (check_emails_bot key req) = Results ?r1"
    unfolding b using assms(4) substring_label_encodable by (rule fold_update_served)
  have v: "validate (JObj kvs) = Some \<lparr>emails = es\<rparr>"
    using assms(3) by (simp add: all_str_map)
  have h: "check_emails_main lower key req \<lparr>emails = es\<rparr> = Results ?r2"
    using assms(1) by (simp add: check_emails_main_def)
  have p: "post_check_emails_main lower key req = Results ?r2"
    using assms(2) v h by (simp add: post_check_emails_main_def del: validate.simps)
  have sp: "served (post_check_emails_main lower key req) = Results ?r2"
    unfolding p main_loop_fold using assms(4) database_label_encodable
    by (rule fold_update_served)
  have d1: "distinct (map fst ?r1)" by (rule fold_update_distinct) simp
  have s1: "set (map fst ?r1) = set es" by (simp add: fold_update_keys)
  have d2: "distinct (map fst ?r2)"
    unfolding main_loop_fold by (rule fold_update_distinct) simp
  have s2: "set (map fst ?r2) = set es" by (simp add: main_loop_fold fold_update_keys)
  have "\<forall>e \<in> set es. length (filter (\<lambda>kv. fst kv = e) ?r1) = 1 \<and>
                      length (filter (\<lambda>kv. fst kv = e) ?r2) = 1"
    using once [OF d1] once [OF d2] s1 s2 by blast
  then show ?thesis using b sb p sp h d1 s1 d2 s2 by blast
qed

theorem every_email_keyed_once_witness:
  "map_of (headers \<lparr>headers = [(str ''x-api-key'', str ''secret'')],
       body = Some (JObj [(str ''emails'', JArr (map JStr [str ''B@x.y'', str ''a@x.y'', str ''B@x.y'']))])\<rparr>)
     (str ''x-api-key'') = Some (str ''secret'')
   \<and> encodable (str ''B@x.y'') \<and> encodable (str ''a@x.y'')
   \<and> served (check_emails_bot (str ''secret'')
       \<lparr>headers = [(str ''x-api-key'', str ''secret'')],
        body = Some (JObj [(str ''emails'', JArr (map JStr [str ''B@x.y'', str ''a@x.y'', str ''B@x.y'']))])\<rparr>)
     = Results [(str ''B@x.y'', str ''error''), (str ''a@x.y'', str ''error'')]
   \<and> served (post_check_emails_main ascii_lower (str ''secret'')
       \<lparr>headers = [(str ''x-api-key'', str ''secret'')],
        body = Some (JObj [(str ''emails'', JArr (map JStr [str ''B@x.y'', str ''a@x.y'', str ''B@x.y'']))])\<rparr>)
     = Results [(str ''B@x.y'', str ''no''), (str ''a@x.y'', str ''no'')]"
proof -
  let ?es = "[str ''B@x.y'', str ''a@x.y'', str ''B@x.y'']"
  let ?kvs = "[(str ''emails'', JArr (map JStr ?es))]"
  let ?req = "\<lparr>headers = [(str ''x-api-key'', str ''secret'')], body = Some (JObj ?kvs)\<rparr>"
  have a1: "map_of (headers ?req) (str ''x-api-key'') = Some (str ''secret'')" by simp
  have a2: "body ?req = Some (JObj ?kvs)" by simp
  have a3: "map_of ?kvs (str ''emails'') = Some (JArr (map JStr ?es))" by simp
  have a4: "\<forall>e \<in> set ?es. encodable e" by (simp add: encodable_str)
  have b: "check_emails_bot (str ''secret'') ?req
     = Results [(str ''B@x.y'', str ''error''), (str ''a@x.y'', str ''error'')]"
    by (simp add: check_emails_bot_def substring_label_def) (simp add: str_def)
  have m: "post_check_emails_main ascii_lower (str ''secret'') ?req
     = Results [(str ''B@x.y'', str ''no''), (str ''a@x.y'', str ''no'')]"
    by (simp add: post_check_emails_main_def check_emails_main_def SIMULATED_DATABASE_def)
       (simp add: ascii_lower_def str_def)
  obtain r1 r2 where r1: "check_emails_bot (str ''secret'') ?req = Results r1"
    and s1: "served (check_emails_bot (str ''secret'') ?req) = Results r1"
    and r2: "post_check_emails_main ascii_lower (str ''secret'') ?req = Results r2"
    and s2: "served (post_check_emails_main ascii_lower (str ''secret'') ?req) = Results r2"
    using every_email_keyed_once [OF a1 a2 a3 a4, of ascii_lower] by (elim exE conjE)
  have sb: "served (check_emails_bot (str ''secret'') ?req)
       = Results [(str ''B@x.y'', str ''error''), (str ''a@x.y'', str ''error'')]"
    using r1 s1 b by (simp only:)
  have sm: "served (post_check_emails_main ascii_lower (str ''secret'') ?req)
       = Results [(str ''B@x.y'', str ''no''), (str ''a@x.y'', str ''no'')]"
    using r2 s2 m by (simp only:)
  show ?thesis by (intro conjI) (rule a1 encodable_str sb sm)+
qed

text \<open>
  C4 as stated fails for the embedded service. With the matching key and the list
  \<open>["flag@x.y", 7]\<close> the loop raises on the number and the client gets no mapping, so
  \<open>flag@x.y\<close> is no key of any; and with an email that is a lone surrogate the returned
  dict cannot be encoded, and again the client gets no mapping.
\<close>

theorem every_email_keyed_once_counterexample:
  "map_of (headers \<lparr>headers = [(str ''x-api-key'', str ''secret'')],
       body = Some (JObj [(str ''emails'', JArr [JStr (str ''flag@x.y''), JNum 7])])\<rparr>)
     (str ''x-api-key'') = Some (str ''secret'')
   \<and> served (check_emails_bot (str ''secret'')
       \<lparr>headers = [(str ''x-api-key'', str ''secret'')],
        body = Some (JObj [(str ''emails'', JArr [JStr (str ''flag@x.y''), JNum 7])])\<rparr>)
     = Unhandled TypeError
   \<and> classification (served (check_emails_bot (str ''secret'')
       \<lparr>headers = [(str ''x-api-key'', str ''secret'')],
        body = Some (JObj [(str ''emails'', JArr [JStr (str ''flag@x.y''), JNum 7])])\<rparr>)) = None
   \<and> check_emails_bot (str ''secret'')
       \<lparr>headers = [(str ''x-api-key'', str ''secret'')],
        body = Some (JObj [(str ''emails'', JArr [JStr [0xD800]])])\<rparr>
     = Results [([0xD800], str ''error'')]
   \<and> served (check_emails_bot (str ''secret'')
       \<lparr>headers = [(str ''x-api-key'', str ''secret'')],
        body = Some (JObj [(str ''emails'', JArr [JStr [0xD800]])])\<rparr>)
     = Unhandled UnicodeEncodeError"
  by (simp add: check_emails_bot_def substring_label_def encodable_def) (simp add: str_def)

text \<open>
  C10. In the embedded service, an authorized request whose JSON body is an object without
  an \<open>emails\<close> field is not rejected: it is answered with the empty mapping and status 200.
\<close>

theorem missing_emails_field_empty_mapping:
  assumes "map_of (headers req) (str ''x-api-key'') = Some key"
    and "body req = Some (JObj kvs)"
    and "map_of kvs (str ''emails'') = None"
  shows "check_emails_bot key req = Results [] \<and> status_code (check_emails_bot key req) = 200"
  using assms by (simp add: check_emails_bot_def)

theorem missing_emails_field_empty_mapping_witness:
  "map_of (headers \<lparr>headers = [(str ''x-api-key'', str ''secret'')],
                    body = Some (JObj [(str ''mails'', JArr [JStr (str ''a@b.c'')])])\<rparr>)
     (str ''x-api-key'') = Some (str ''secret'')
   \<and> map_of [(str ''mails'', JArr [JStr (str ''a@b.c'')])] (str ''emails'') = None
   \<and> check_emails_bot (str ''secret'')
        \<lparr>headers = [(str ''x-api-key'', str ''secret'')],
         body = Some (JObj [(str ''mails'', JArr [JStr (str ''a@b.c'')])])\<rparr> = Results []"
  using missing_emails_field_empty_mapping
    [of "\<lparr>headers = [(str ''x-api-key'', str ''secret'')],
          body = Some (JObj [(str ''mails'', JArr [JStr (str ''a@b.c'')])])\<rparr>"
        "str ''secret''" "[(str ''mails'', JArr [JStr (str ''a@b.c'')])]"]
  by simp



text \<open>
  C7 (as amended). A status that is a string other than the four keys of the table
  (\<open>yes\<close>, \<open>no\<close>, \<open>captcha\<close>, \<open>error\<close>) is rendered with the question icon and the text
  \<open>Unknown\<close>, and so is its line; the label \<open>error\<close> is the one that is rendered with the
  question icon and the text \<open>Unknown or Error\<close>.
\<close>

theorem unrecognized_label_rendering:
  assumes "status \<notin> {str ''yes'', str ''no'', str ''captcha'', str ''error''}"
  shows "status_map_get (JStr status) = Inr (0x2753 # str '' Unknown'')
       \<and> format_results (JObj [(email, JStr status)])
           = Inr (0x2753 # str '' Unknown'' @ [0x20, 0x2013, 0x20] @ email)
       \<and> status_map_get (JStr (str ''error'')) = Inr (0x2753 # str '' Unknown or Error'')
       \<and> format_results (JObj [(email, JStr (str ''error''))])
           = Inr (0x2753 # str '' Unknown or Error'' @ [0x20, 0x2013, 0x20] @ email)"
proof -
  have a: "status_map_get (JStr status) = Inr (0x2753 # str '' Unknown'')"
    using assms by (simp add: status_map_def)
  have b: "status_map_get (JStr (str ''error'')) = Inr (0x2753 # str '' Unknown or Error'')"
    by (simp add: status_map_def)
  show ?thesis by (simp add: a b del: status_map_get.simps)
qed

theorem unrecognized_label_rendering_witness:
  "str ''maybe'' \<notin> {str ''yes'', str ''no'', str ''captcha'', str ''error''}
   \<and> format_results (JObj [(str ''a@b.c'', JStr (str ''maybe''))])
       = Inr (0x2753 # str '' Unknown'' @ [0x20, 0x2013, 0x20] @ str ''a@b.c'')"
  using unrecognized_label_rendering [of "str ''maybe''" "str ''a@b.c''"]
  by simp

text \<open>
  C7 as stated fails: the label \<open>maybe\<close> is none of the three recognized ones, and its
  rendering is not the question icon with \<open>Unknown or Error\<close>.
\<close>

theorem unrecognized_label_counterexample:
  "str ''maybe'' \<notin> {str ''yes'', str ''no'', str ''captcha''}
   \<and> status_map_get (JStr (str ''maybe'')) \<noteq> Inr (0x2753 # str '' Unknown or Error'')
   \<and> format_results (JObj [(str ''a@b.c'', JStr (str ''maybe''))])
       \<noteq> Inr (0x2753 # str '' Unknown or Error'' @ [0x20, 0x2013, 0x20] @ str ''a@b.c'')"
  by (simp add: status_map_def)

text \<open>
  C8. With no \<open>TELEGRAM_BOT_TOKEN\<close> in the environment the process does not exit: the
  placeholder takes the token's place, the test for a missing token does not fire, and
  the bot is built with the placeholder and polls.
\<close>

theorem missing_token_starts_with_placeholder:
  "bot_main Map.empty = Polling (str ''your_telegram_bot_token'')"
  by (simp add: bot_main_def TELEGRAM_BOT_TOKEN_def getenv_or_def str_def)

lemma bot_main_never_exits: "bot_main env \<noteq> Exit code msg"
  by (simp add: bot_main_def TELEGRAM_BOT_TOKEN_def getenv_or_def str_def split: option.splits)

text \<open>
  C9 (as amended). Both outbound calls are made without a timeout. When a call raises,
  whatever the exception, the failure is handled: the health check answers that the
  backend could not be reached, and the batch check resets the Session Flag and, when the
  reply can be delivered, sends the error line for that exception.
\<close>

theorem outbound_calls_failure_handling:
  "timeout status_call = None
   \<and> timeout (check_emails_call key es) = None
   \<and> (http w status_call = Raised e \<longrightarrow> status_command w = BackendUnreachable)
   \<and> (st user_id = Some True \<and> parse_emails text \<noteq> []
        \<and> \<not> tg_fails w (Checking (length (parse_emails text)))
        \<and> http w (check_emails_call key (parse_emails text)) = Raised e
      \<longrightarrow> posted (handle_message key w st user_id text)
             = Some (check_emails_call key (parse_emails text))
          \<and> state (handle_message key w st user_id text) user_id = Some False
          \<and> (\<not> tg_fails w (ErrorText e) \<longrightarrow>
               replies (handle_message key w st user_id text)
                 = [Checking (length (parse_emails text)), ErrorText e]))"
proof (intro conjI impI)
  show "timeout status_call = None" by (simp add: status_call_def)
  show "timeout (check_emails_call key es) = None" by (simp add: check_emails_call_def)
  show "status_command w = BackendUnreachable" if "http w status_call = Raised e"
    using that by (simp add: status_command_def)
next
  assume a: "st user_id = Some True \<and> parse_emails text \<noteq> []
        \<and> \<not> tg_fails w (Checking (length (parse_emails text)))
        \<and> http w (check_emails_call key (parse_emails text)) = Raised e"
  show "posted (handle_message key w st user_id text)
             = Some (check_emails_call key (parse_emails text))"
    using a by (simp add: handle_message_sent(2))
  show "state (handle_message key w st user_id text) user_id = Some False"
    using a by (simp add: handle_message_sent(1))
  show "replies (handle_message key w st user_id text)
                 = [Checking (length (parse_emails text)), ErrorText e]"
    if "\<not> tg_fails w (ErrorText e)"
    using a that by (simp add: handle_message_raised)
qed

theorem outbound_calls_failure_handling_witness:
  "status_command \<lparr>http = (\<lambda>c. Raised (RequestException (str ''timed out''))),
                   tg_fails = (\<lambda>r. False)\<rparr> = BackendUnreachable
   \<and> parse_emails (str ''a@b.c'') = [str ''a@b.c'']
   \<and> state (handle_message (str ''secret'')
        \<lparr>http = (\<lambda>c. Raised (RequestException (str ''timed out''))), tg_fails = (\<lambda>r. False)\<rparr>
        (Map.empty(7 \<mapsto> True)) 7 (str ''a@b.c'')) 7 = Some False
   \<and> replies (handle_message (str ''secret'')
        \<lparr>http = (\<lambda>c. Raised (RequestException (str ''timed out''))), tg_fails = (\<lambda>r. False)\<rparr>
        (Map.empty(7 \<mapsto> True)) 7 (str ''a@b.c''))
      = [Checking 1, ErrorText (RequestException (str ''timed out''))]"
proof -
  have p: "parse_emails (str ''a@b.c'') = [str ''a@b.c'']"
    by (simp add: parse_emails_def str_def replace_comma_def splitlines_def is_linebreak_def
          strip_def isspace_def)
  show ?thesis
    using p outbound_calls_failure_handling
      [of "str ''secret''" "[]"
          "\<lparr>http = (\<lambda>c. Raised (RequestException (str ''timed out''))), tg_fails = (\<lambda>r. False)\<rparr>"
          "RequestException (str ''timed out'')" "Map.empty(7 \<mapsto> True)" 7 "str ''a@b.c''"]
    by simp
qed

text \<open>
  C9 as stated fails: neither the health check nor the batch check carries a timeout.
\<close>

theorem outbound_timeout_counterexample:
  "timeout status_call = None
   \<and> timeout (check_emails_call (str ''secret'') [str ''a@b.c'']) = None"
  by (simp add: status_call_def check_emails_call_def)

end
